theory Spec2Isabelle
  imports Main "HOL-Library.Word"
begin

section \<open>Values of the Python run time\<close>

subsection \<open>Zero-padded numerals\<close>

text \<open>
  \<open>uuid.UUID.__str__\<close> prints \<open>'%032x' % self.int\<close> and \<open>datetime.isoformat\<close> prints
  each field with \<open>'%02d'\<close>, \<open>'%04d'\<close> or \<open>'%06d'\<close>. \<open>zdigits b n v\<close> is the numeral of
  \<open>v\<close> in base \<open>b\<close> on exactly \<open>n\<close> digits (lower-case letters above 9), and
  \<open>undigits b s\<close> reads such a numeral back, refusing every other character.
\<close>

definition digit_char :: "nat \<Rightarrow> char" where
  "digit_char d = (if d < 10 then char_of (48 + d) else char_of (87 + d))"

definition digit_val :: "nat \<Rightarrow> char \<Rightarrow> nat option" where
  "digit_val b c =
     (let k = (of_char c :: nat);
          d = (if 48 \<le> k \<and> k \<le> 57 then k - 48
               else if 97 \<le> k \<and> k \<le> 122 then k - 87 else b)
      in if d < b then Some d else None)"

primrec zdigits :: "nat \<Rightarrow> nat \<Rightarrow> nat \<Rightarrow> string" where
  "zdigits b 0 v = []"
| "zdigits b (Suc n) v = zdigits b n (v div b) @ [digit_char (v mod b)]"

primrec undigits_from :: "nat \<Rightarrow> nat \<Rightarrow> string \<Rightarrow> nat option" where
  "undigits_from b acc [] = Some acc"
| "undigits_from b acc (c # cs) =
     (case digit_val b c of None \<Rightarrow> None | Some d \<Rightarrow> undigits_from b (acc * b + d) cs)"

definition undigits :: "nat \<Rightarrow> string \<Rightarrow> nat option" where
  "undigits b s = undigits_from b 0 s"

text \<open>The next \<open>n\<close> characters as a numeral, and the text after them.\<close>

definition take_digits :: "nat \<Rightarrow> nat \<Rightarrow> string \<Rightarrow> (nat \<times> string) option" where
  "take_digits b n s =
     (if length s < n then None
      else case undigits b (take n s) of None \<Rightarrow> None | Some v \<Rightarrow> Some (v, drop n s))"

definition expect :: "char \<Rightarrow> string \<Rightarrow> string option" where
  "expect c s = (case s of [] \<Rightarrow> None | x # r \<Rightarrow> if x = c then Some r else None)"

subsection \<open>uuid.UUID\<close>

text \<open>
  A UUID is its 128-bit integer. \<open>uuid_str\<close> is \<open>UUID.__str__\<close>: the 32 hexadecimal digits
  cut 8-4-4-4-12. \<open>uuid_parse\<close> is \<open>UUID(s)\<close> on a text of that canonical lower-case shape;
  the other spellings the constructor takes (upper case, braces, a \<open>urn:uuid:\<close> prefix,
  no hyphens) are left to the library record below.
\<close>

type_synonym uuid = "128 word"

definition uuid_str :: "uuid \<Rightarrow> string" where
  "uuid_str u =
     (let h = zdigits 16 32 (unat u)
      in take 8 h @ ''-'' @ take 4 (drop 8 h) @ ''-'' @ take 4 (drop 12 h) @ ''-''
         @ take 4 (drop 16 h) @ ''-'' @ drop 20 h)"

definition uuid_parse :: "string \<Rightarrow> uuid option" where
  "uuid_parse s =
     (if length s = 36 \<and> s ! 8 = CHR ''-'' \<and> s ! 13 = CHR ''-'' \<and> s ! 18 = CHR ''-''
         \<and> s ! 23 = CHR ''-''
      then map_option word_of_nat
             (undigits 16 (take 8 s @ take 4 (drop 9 s) @ take 4 (drop 14 s)
                           @ take 4 (drop 19 s) @ drop 24 s))
      else None)"

subsection \<open>datetime.datetime\<close>

text \<open>
  A datetime is its calendar fields and, when it is aware, the offset of its time zone
  from UTC in whole minutes (\<open>timezone(timedelta(minutes=m))\<close>); \<open>datetime.utcnow()\<close>
  returns a naive one. \<open>valid_datetime\<close> is what the constructor of \<open>datetime\<close> checks.
\<close>

record datetime =
  year :: nat
  month :: nat
  day :: nat
  hour :: nat
  minute :: nat
  second :: nat
  microsecond :: nat
  tzinfo :: "int option"

definition is_leap :: "nat \<Rightarrow> bool" where
  "is_leap y = (y mod 4 = 0 \<and> (y mod 100 \<noteq> 0 \<or> y mod 400 = 0))"

definition days_in_month :: "nat \<Rightarrow> nat \<Rightarrow> nat" where
  "days_in_month y m =
     (if m = 2 then (if is_leap y then 29 else 28)
      else if m = 4 \<or> m = 6 \<or> m = 9 \<or> m = 11 then 30 else 31)"

definition valid_datetime :: "datetime \<Rightarrow> bool" where
  "valid_datetime t =
     (1 \<le> year t \<and> year t \<le> 9999 \<and> 1 \<le> month t \<and> month t \<le> 12
      \<and> 1 \<le> day t \<and> day t \<le> days_in_month (year t) (month t)
      \<and> hour t < 24 \<and> minute t < 60 \<and> second t < 60 \<and> microsecond t < 1000000
      \<and> (case tzinfo t of None \<Rightarrow> True | Some m \<Rightarrow> - 1440 < m \<and> m < 1440))"

definition format_offset :: "int option \<Rightarrow> string" where
  "format_offset off =
     (case off of
        None \<Rightarrow> []
      | Some m \<Rightarrow>
          (if m < 0 then ''-'' else ''+'') @ zdigits 10 2 (nat \<bar>m\<bar> div 60) @ '':''
          @ zdigits 10 2 (nat \<bar>m\<bar> mod 60))"

definition isoformat :: "datetime \<Rightarrow> string" where
  "isoformat t =
     zdigits 10 4 (year t) @ ''-'' @ zdigits 10 2 (month t) @ ''-'' @ zdigits 10 2 (day t)
     @ ''T'' @ zdigits 10 2 (hour t) @ '':'' @ zdigits 10 2 (minute t) @ '':''
     @ zdigits 10 2 (second t)
     @ (if microsecond t = 0 then [] else ''.'' @ zdigits 10 6 (microsecond t))
     @ format_offset (tzinfo t)"

text \<open>
  \<open>iso_parse\<close> is pydantic's \<open>parse_datetime\<close> on a text of the shape \<open>isoformat\<close> writes:
  \<open>YYYY-MM-DDTHH:MM:SS\<close>, then an optional \<open>.ffffff\<close>, then an optional \<open>+HH:MM\<close> or
  \<open>-HH:MM\<close>, the fields handed to the constructor of \<open>datetime\<close>.
\<close>

definition parse_fraction :: "string \<Rightarrow> (nat \<times> string) option" where
  "parse_fraction s =
     (case s of
        [] \<Rightarrow> Some (0, [])
      | c # r \<Rightarrow> if c = CHR ''.'' then take_digits 10 6 r else Some (0, s))"

definition parse_offset :: "string \<Rightarrow> int option option" where
  "parse_offset s =
     (case s of
        [] \<Rightarrow> Some None
      | c # r \<Rightarrow>
          if c = CHR ''+'' \<or> c = CHR ''-'' then
            (case take_digits 10 2 r of
               None \<Rightarrow> None
             | Some (h, r1) \<Rightarrow>
                 (case expect CHR '':'' r1 of
                    None \<Rightarrow> None
                  | Some r2 \<Rightarrow>
                      (case take_digits 10 2 r2 of
                         None \<Rightarrow> None
                       | Some (m, r3) \<Rightarrow>
                           if r3 = [] then
                             Some (Some (if c = CHR ''-'' then - int (60 * h + m)
                                         else int (60 * h + m)))
                           else None)))
          else None)"

definition iso_parse :: "string \<Rightarrow> datetime option" where
  "iso_parse s0 =
     Option.bind (take_digits 10 4 s0) (\<lambda>(y, s1).
     Option.bind (expect CHR ''-'' s1) (\<lambda>s2.
     Option.bind (take_digits 10 2 s2) (\<lambda>(mo, s3).
     Option.bind (expect CHR ''-'' s3) (\<lambda>s4.
     Option.bind (take_digits 10 2 s4) (\<lambda>(d, s5).
     Option.bind (expect CHR ''T'' s5) (\<lambda>s6.
     Option.bind (take_digits 10 2 s6) (\<lambda>(h, s7).
     Option.bind (expect CHR '':'' s7) (\<lambda>s8.
     Option.bind (take_digits 10 2 s8) (\<lambda>(mi, s9).
     Option.bind (expect CHR '':'' s9) (\<lambda>s10.
     Option.bind (take_digits 10 2 s10) (\<lambda>(sec, s11).
     Option.bind (parse_fraction s11) (\<lambda>(us, s12).
     Option.bind (parse_offset s12) (\<lambda>off.
       (let t = \<lparr>year = y, month = mo, day = d, hour = h, minute = mi, second = sec,
                 microsecond = us, tzinfo = off\<rparr>
        in if valid_datetime t then Some t else None))))))))))))))"


subsection \<open>Python values and JSON documents\<close>

text \<open>
  The Python values the model ranges over: \<open>None\<close>, booleans, integers, strings, lists,
  tuples, dicts with string keys, UUIDs and datetimes. A dict is the list of its items
  in insertion order; its keys are distinct. Floats, bytes, sets and other objects are
  outside the model.
\<close>

datatype pyval =
    PNone
  | PBool bool
  | PInt int
  | PStr string
  | PList "pyval list"
  | PTuple "pyval list"
  | PDict "(string \<times> pyval) list"
  | PUuid uuid
  | PDatetime datetime

datatype json =
    JNull
  | JBool bool
  | JInt int
  | JStr string
  | JArr "json list"
  | JObj "(string \<times> json) list"

text \<open>
  \<open>to_json\<close> is the document \<open>json.dumps\<close> writes for a value, with the encoders of
  \<open>Envelope.Config.json_encoders\<close> (\<open>uuid.UUID: str\<close>,
  \<open>datetime: lambda v: v.isoformat()\<close>) as its \<open>default\<close>: lists and tuples both become
  arrays. \<open>of_json\<close> is the value \<open>json.loads\<close> builds from a document.
\<close>

fun to_json :: "pyval \<Rightarrow> json" where
  "to_json PNone = JNull"
| "to_json (PBool b) = JBool b"
| "to_json (PInt i) = JInt i"
| "to_json (PStr s) = JStr s"
| "to_json (PList xs) = JArr (map to_json xs)"
| "to_json (PTuple xs) = JArr (map to_json xs)"
| "to_json (PDict kvs) = JObj (map (\<lambda>(k, v). (k, to_json v)) kvs)"
| "to_json (PUuid u) = JStr (uuid_str u)"
| "to_json (PDatetime t) = JStr (isoformat t)"

fun of_json :: "json \<Rightarrow> pyval" where
  "of_json JNull = PNone"
| "of_json (JBool b) = PBool b"
| "of_json (JInt i) = PInt i"
| "of_json (JStr s) = PStr s"
| "of_json (JArr xs) = PList (map of_json xs)"
| "of_json (JObj kvs) = PDict (map (\<lambda>(k, v). (k, of_json v)) kvs)"

text \<open>The values JSON has a form of its own for.\<close>

fun json_native :: "pyval \<Rightarrow> bool" where
  "json_native PNone = True"
| "json_native (PBool b) = True"
| "json_native (PInt i) = True"
| "json_native (PStr s) = True"
| "json_native (PList xs) = list_all json_native xs"
| "json_native (PTuple xs) = False"
| "json_native (PDict kvs) = list_all (\<lambda>(k, v). json_native v) kvs"
| "json_native (PUuid u) = False"
| "json_native (PDatetime t) = False"

text \<open>
  A text on the wire is taken for what \<open>json.loads\<close> makes of it: the document it
  denotes, or no document at all.
\<close>

datatype payload = Json json | NotJson string

subsection \<open>Exceptions and the library\<close>

text \<open>
  \<open>ValidationError\<close> is pydantic's, with the names of the fields that failed (the
  spec's InvalidInput and MalformedData). Any other raised object is \<open>Raised\<close>: whether
  it is an instance of \<open>Exception\<close> (\<open>SystemExit\<close>, \<open>KeyboardInterrupt\<close> and
  \<open>asyncio.CancelledError\<close> are not) and its \<open>str()\<close>.
\<close>

datatype exc = ValidationError "string list" | Raised bool string

text \<open>
  What the model takes from pydantic without fixing it. \<open>coerce name v\<close> is what the
  validators of the field \<open>name\<close> make of a value \<open>v\<close> that is not already of the
  field's type (a number for a string field, a text \<open>UUID()\<close> reads that is not in
  canonical form, ...): a value of the field's type, or \<open>None\<close> when they refuse it;
  \<open>''__root__''\<close> stands for \<open>parse_obj\<close> on a document that is not an object.
  \<open>str_of_error\<close> is the \<open>str()\<close> of a \<open>ValidationError\<close>.
\<close>

record pylib =
  coerce :: "string \<Rightarrow> pyval \<Rightarrow> pyval option"
  str_of_error :: "string list \<Rightarrow> string"

definition is_Exception :: "exc \<Rightarrow> bool" where
  "is_Exception x = (case x of ValidationError locs \<Rightarrow> True | Raised b msg \<Rightarrow> b)"

definition exc_str :: "pylib \<Rightarrow> exc \<Rightarrow> string" where
  "exc_str L x = (case x of ValidationError locs \<Rightarrow> str_of_error L locs | Raised b msg \<Rightarrow> msg)"

text \<open>What \<open>uuid.uuid4()\<close> and \<open>datetime.utcnow()\<close> return when a default factory calls them.\<close>

record defaults =
  uuid4 :: uuid
  utcnow :: datetime

section \<open>comm\_protocol: the Envelope\<close>

datatype rcpt = RStr string | RList "string list"

record Envelope =
  message_id :: uuid
  ts :: datetime
  sender :: string
  recipient :: rcpt
  priority :: int
  kind :: string
  content :: "(string \<times> pyval) list"

definition kinds :: "string list" where
  "kinds = [''request'', ''response'', ''notification'', ''command'']"

text \<open>A value that is of the field's type already, per field type.\<close>

definition uuid_exact :: "pyval \<Rightarrow> uuid option" where
  "uuid_exact v = (case v of PUuid u \<Rightarrow> Some u | PStr s \<Rightarrow> uuid_parse s | _ \<Rightarrow> None)"

definition datetime_exact :: "pyval \<Rightarrow> datetime option" where
  "datetime_exact v = (case v of PDatetime t \<Rightarrow> Some t | PStr s \<Rightarrow> iso_parse s | _ \<Rightarrow> None)"

definition str_exact :: "pyval \<Rightarrow> string option" where
  "str_exact v = (case v of PStr s \<Rightarrow> Some s | _ \<Rightarrow> None)"

text \<open>
  \<open>Union[str, List[str], Literal["broadcast"]]\<close>: a string is taken by the first member
  (so \<open>"broadcast"\<close> is an ordinary string), a list of strings by the second.
\<close>

definition rcpt_exact :: "pyval \<Rightarrow> rcpt option" where
  "rcpt_exact v =
     (case v of
        PStr s \<Rightarrow> Some (RStr s)
      | PList xs \<Rightarrow>
          if list_all (\<lambda>x. str_exact x \<noteq> None) xs then Some (RList (map (\<lambda>x. the (str_exact x)) xs))
          else None
      | _ \<Rightarrow> None)"

definition int_exact :: "pyval \<Rightarrow> int option" where
  "int_exact v = (case v of PInt i \<Rightarrow> Some i | _ \<Rightarrow> None)"

definition dict_exact :: "pyval \<Rightarrow> (string \<times> pyval) list option" where
  "dict_exact v = (case v of PDict kvs \<Rightarrow> Some kvs | _ \<Rightarrow> None)"

definition exact_or_coerce ::
  "pylib \<Rightarrow> string \<Rightarrow> (pyval \<Rightarrow> 'a option) \<Rightarrow> pyval \<Rightarrow> 'a option" where
  "exact_or_coerce L name exact v =
     (case exact v of
        Some x \<Rightarrow> Some x
      | None \<Rightarrow> (case coerce L name v of None \<Rightarrow> None | Some v' \<Rightarrow> exact v'))"

text \<open>\<open>conint(ge=1, le=5)\<close>: the integer, then its bounds.\<close>

definition priority_validator :: "pylib \<Rightarrow> pyval \<Rightarrow> int option" where
  "priority_validator L v =
     (case exact_or_coerce L ''priority'' int_exact v of
        None \<Rightarrow> None
      | Some i \<Rightarrow> if 1 \<le> i \<and> i \<le> 5 then Some i else None)"

text \<open>\<open>Literal["request", "response", "notification", "command"]\<close>: one of the four, or refused.\<close>

definition kind_validator :: "pyval \<Rightarrow> string option" where
  "kind_validator v = (case v of PStr s \<Rightarrow> if s \<in> set kinds then Some s else None | _ \<Rightarrow> None)"

text \<open>
  One field of the model: a keyword that is absent takes the default (\<open>None\<close> here when
  the field is required, \<open>Field(...)\<close>), \<open>None\<close> is not an allowed value, anything else
  goes through the field's validator.
\<close>

definition field ::
  "(string \<times> pyval) list \<Rightarrow> string \<Rightarrow> 'a option \<Rightarrow> (pyval \<Rightarrow> 'a option) \<Rightarrow> 'a option" where
  "field kw name dflt validate =
     (case map_of kw name of
        None \<Rightarrow> dflt
      | Some v \<Rightarrow> if v = PNone then None else validate v)"

definition failed :: "string \<Rightarrow> 'a option \<Rightarrow> string list" where
  "failed name r = (if r = None then [name] else [])"

text \<open>
  \<open>Envelope(**kw)\<close>: every field is validated, and the call raises one
  \<open>ValidationError\<close> naming all the fields that failed.
\<close>

definition validate_model :: "pylib \<Rightarrow> defaults \<Rightarrow> (string \<times> pyval) list \<Rightarrow> exc + Envelope" where
  "validate_model L d kw =
     (let f_id = field kw ''message_id'' (Some (uuid4 d)) (exact_or_coerce L ''message_id'' uuid_exact);
          f_ts = field kw ''ts'' (Some (utcnow d)) (exact_or_coerce L ''ts'' datetime_exact);
          f_sender = field kw ''sender'' None (exact_or_coerce L ''sender'' str_exact);
          f_recipient = field kw ''recipient'' None (exact_or_coerce L ''recipient'' rcpt_exact);
          f_priority = field kw ''priority'' (Some 3) (priority_validator L);
          f_kind = field kw ''kind'' None kind_validator;
          f_content = field kw ''content'' (Some []) (exact_or_coerce L ''content'' dict_exact);
          errors = failed ''message_id'' f_id @ failed ''ts'' f_ts @ failed ''sender'' f_sender
                   @ failed ''recipient'' f_recipient @ failed ''priority'' f_priority
                   @ failed ''kind'' f_kind @ failed ''content'' f_content
      in if errors = [] then
           Inr \<lparr>message_id = the f_id, ts = the f_ts, sender = the f_sender,
                recipient = the f_recipient, priority = the f_priority, kind = the f_kind,
                content = the f_content\<rparr>
         else Inl (ValidationError errors))"

text \<open>What every constructed envelope satisfies; a \<open>datetime\<close> object is always a valid one.\<close>

definition valid_envelope :: "Envelope \<Rightarrow> bool" where
  "valid_envelope e =
     (1 \<le> priority e \<and> priority e \<le> 5 \<and> kind e \<in> set kinds \<and> valid_datetime (ts e))"

text \<open>\<open>Envelope.dict()\<close>, \<open>Envelope.json()\<close>, \<open>Envelope.parse_obj\<close> and \<open>Envelope.parse_raw\<close>.\<close>

definition rcpt_val :: "rcpt \<Rightarrow> pyval" where
  "rcpt_val r = (case r of RStr s \<Rightarrow> PStr s | RList xs \<Rightarrow> PList (map PStr xs))"

definition to_dict :: "Envelope \<Rightarrow> (string \<times> pyval) list" where
  "to_dict e =
     [(''message_id'', PUuid (message_id e)), (''ts'', PDatetime (ts e)),
      (''sender'', PStr (sender e)), (''recipient'', rcpt_val (recipient e)),
      (''priority'', PInt (priority e)), (''kind'', PStr (kind e)),
      (''content'', PDict (content e))]"

definition envelope_json :: "Envelope \<Rightarrow> payload" where
  "envelope_json e = Json (to_json (PDict (to_dict e)))"

definition parse_obj :: "pylib \<Rightarrow> defaults \<Rightarrow> pyval \<Rightarrow> exc + Envelope" where
  "parse_obj L d v =
     (case exact_or_coerce L ''__root__'' dict_exact v of
        None \<Rightarrow> Inl (ValidationError [''__root__''])
      | Some kw \<Rightarrow> validate_model L d kw)"

definition parse_raw :: "pylib \<Rightarrow> defaults \<Rightarrow> payload \<Rightarrow> exc + Envelope" where
  "parse_raw L d raw =
     (case raw of
        NotJson s \<Rightarrow> Inl (ValidationError [''__root__''])
      | Json j \<Rightarrow> parse_obj L d (of_json j))"

section \<open>agent\_core: the bus\<close>

text \<open>
  \<open>RedisBus\<close> keeps its address and the name of its stream. An entry of the stream is
  its identifier and its fields; the process's effects are the lines it prints and the
  entries it appends with \<open>xadd\<close>, each with the stream it went to. The broker accepts
  every append: a broker out of reach is outside the model.
\<close>

record RedisBus =
  url :: string
  stream_key :: string

definition RedisBus_init :: RedisBus where
  "RedisBus_init = \<lparr>url = ''redis://localhost:6379'', stream_key = ''conceptualize-bus''\<rparr>"

type_synonym fields = "(string \<times> payload) list"
type_synonym entry = "string \<times> fields"
type_synonym reply = "(string \<times> entry list) list"

record world =
  console :: "string list"
  appended :: "(string \<times> fields) list"

definition print :: "string \<Rightarrow> world \<Rightarrow> world" where
  "print line w = w\<lparr>console := console w @ [line]\<rparr>"

definition publish :: "RedisBus \<Rightarrow> Envelope \<Rightarrow> world \<Rightarrow> world" where
  "publish b envelope w =
     w\<lparr>appended := appended w @ [(stream_key b, [(''data'', envelope_json envelope)])]\<rparr>"

text \<open>
  \<open>subscribe\<close> is a generator: what it does, in order, is yield an envelope or print a
  line. Its state is \<open>last_id\<close>.
\<close>

datatype event = Yielded Envelope | Printed string

record subscription =
  last_id :: string
  events :: "event list"

text \<open>
  The body of the loop over the messages of a reply. \<open>fac m\<close> is what the default
  factories return while the entry \<open>m\<close> is parsed.
\<close>

definition on_message ::
  "pylib \<Rightarrow> (string \<Rightarrow> defaults) \<Rightarrow> entry \<Rightarrow> subscription \<Rightarrow> subscription" where
  "on_message L fac m st =
     (let st1 = st\<lparr>last_id := fst m\<rparr>
      in case map_of (snd m) ''data'' of
           None \<Rightarrow> st1
         | Some raw \<Rightarrow>
             (case parse_raw L (fac (fst m)) raw of
                Inr envelope \<Rightarrow> st1\<lparr>events := events st1 @ [Yielded envelope]\<rparr>
              | Inl x \<Rightarrow>
                  st1\<lparr>events := events st1
                         @ [Printed (''[RedisBus] Failed to parse envelope: '' @ exc_str L x)]\<rparr>))"

primrec on_messages ::
  "pylib \<Rightarrow> (string \<Rightarrow> defaults) \<Rightarrow> entry list \<Rightarrow> subscription \<Rightarrow> subscription" where
  "on_messages L fac [] st = st"
| "on_messages L fac (m # ms) st = on_messages L fac ms (on_message L fac m st)"

primrec on_streams ::
  "pylib \<Rightarrow> (string \<Rightarrow> defaults) \<Rightarrow> reply \<Rightarrow> subscription \<Rightarrow> subscription" where
  "on_streams L fac [] st = st"
| "on_streams L fac (r # rs) st = on_streams L fac rs (on_messages L fac (snd r) st)"

text \<open>
  Modelled from the spec: the broker, which is not part of the repository. The stream is
  an append-only log of entries with distinct identifiers: \<open>older\<close> holds the entries
  appended before the subscription's first read, \<open>newer\<close> the ones appended after it. A
  read starts strictly after the given identifier, \<open>$\<close> standing for the end of the log
  at the first read; with \<open>block=0\<close> it returns once entries are there, with the \<open>k\<close> of
  them that are there by then.
\<close>

record broker =
  older :: "entry list"
  newer :: "entry list"

definition pending :: "broker \<Rightarrow> string \<Rightarrow> entry list" where
  "pending B after =
     (if after = ''$'' then newer B
      else tl (dropWhile (\<lambda>m. fst m \<noteq> after) (older B @ newer B)))"

definition xread :: "broker \<Rightarrow> string \<Rightarrow> string \<Rightarrow> nat \<Rightarrow> reply" where
  "xread B key after k =
     (let ms = take k (pending B after) in if ms = [] then [] else [(key, ms)])"

text \<open>
  \<open>while True\<close>: one turn per read. \<open>ks\<close> says how many entries each read of the run
  finds; after the last of them the generator stays blocked in \<open>xread\<close>, in the state
  returned here.
\<close>

primrec subscribe ::
  "pylib \<Rightarrow> (string \<Rightarrow> defaults) \<Rightarrow> RedisBus \<Rightarrow> broker \<Rightarrow> nat list \<Rightarrow> subscription \<Rightarrow> subscription" where
  "subscribe L fac b B [] st = st"
| "subscribe L fac b B (k # ks) st =
     subscribe L fac b B ks (on_streams L fac (xread B (stream_key b) (last_id st) k) st)"

definition subscribe_init :: subscription where
  "subscribe_init = \<lparr>last_id = ''$'', events = []\<rparr>"

text \<open>The envelopes among the events of a subscription, in order.\<close>

fun yielded :: "event list \<Rightarrow> Envelope list" where
  "yielded [] = []"
| "yielded (Yielded envelope # evs) = envelope # yielded evs"
| "yielded (Printed line # evs) = yielded evs"

section \<open>agent\_core: the base agent\<close>

record BaseAgent =
  agent_id :: string
  bus :: RedisBus

text \<open>A handler returns normally or raises, after its effects.\<close>

type_synonym handler = "Envelope \<Rightarrow> world \<Rightarrow> exc option \<times> world"

text \<open>
  \<open>rcpt == self.agent_id or rcpt == "broadcast" or (isinstance(rcpt, list) and
  self.agent_id in rcpt)\<close>; a list never equals a string.
\<close>

definition rcpt_eq :: "rcpt \<Rightarrow> string \<Rightarrow> bool" where
  "rcpt_eq r s = (case r of RStr x \<Rightarrow> x = s | RList xs \<Rightarrow> False)"

definition should_handle :: "BaseAgent \<Rightarrow> Envelope \<Rightarrow> bool" where
  "should_handle self envelope =
     (let rcpt = recipient envelope
      in rcpt_eq rcpt (agent_id self) \<or> rcpt_eq rcpt ''broadcast''
         \<or> (case rcpt of RList xs \<Rightarrow> agent_id self \<in> set xs | RStr x \<Rightarrow> False))"

text \<open>
  \<open>except Exception\<close> takes the instances of \<open>Exception\<close>; anything else raised leaves
  \<open>_safe_handle\<close> as it came.
\<close>

definition safe_handle :: "pylib \<Rightarrow> BaseAgent \<Rightarrow> handler \<Rightarrow> Envelope \<Rightarrow> world \<Rightarrow> exc option \<times> world" where
  "safe_handle L self handle envelope w =
     (case handle envelope w of
        (None, w1) \<Rightarrow> (None, w1)
      | (Some x, w1) \<Rightarrow>
          if is_Exception x then
            (None, print (''['' @ agent_id self @ ''] Error while handling message: '' @ exc_str L x) w1)
          else (Some x, w1))"

text \<open>
  The body of \<open>async for envelope in self.bus.subscribe()\<close>, over what the generator
  does. \<open>tasks\<close> are the envelopes \<open>create_task\<close> was called for. A task is run here as
  soon as it is created, one of the orders the event loop may choose; an exception that
  leaves the task reaches the event loop, where the model stops.
\<close>

record agent_run =
  tasks :: "Envelope list"
  effects :: world

fun receive :: "pylib \<Rightarrow> BaseAgent \<Rightarrow> handler \<Rightarrow> event list \<Rightarrow> agent_run \<Rightarrow> exc option \<times> agent_run" where
  "receive L self handle [] s = (None, s)"
| "receive L self handle (Printed line # evs) s =
     receive L self handle evs (s\<lparr>effects := print line (effects s)\<rparr>)"
| "receive L self handle (Yielded envelope # evs) s =
     (if should_handle self envelope then
        (case safe_handle L self handle envelope (effects s) of
           (None, w1) \<Rightarrow>
             receive L self handle evs (s\<lparr>tasks := tasks s @ [envelope], effects := w1\<rparr>)
         | (Some x, w1) \<Rightarrow> (Some x, s\<lparr>tasks := tasks s @ [envelope], effects := w1\<rparr>))
      else receive L self handle evs s)"

definition run_forever ::
  "pylib \<Rightarrow> (string \<Rightarrow> defaults) \<Rightarrow> BaseAgent \<Rightarrow> handler \<Rightarrow> broker \<Rightarrow> nat list \<Rightarrow> world
   \<Rightarrow> exc option \<times> agent_run" where
  "run_forever L fac self handle B ks w =
     receive L self handle (events (subscribe L fac (bus self) B ks subscribe_init))
       \<lparr>tasks = [],
        effects = print (''['' @ agent_id self @ ''] starting event loop ''
                         @ [char_of (226 :: nat), char_of (128 :: nat), char_of (166 :: nat)]) w\<rparr>"

section \<open>apps/captain\<close>

definition captain_handle :: "pylib \<Rightarrow> defaults \<Rightarrow> BaseAgent \<Rightarrow> handler" where
  "captain_handle L d self envelope w =
     (let w1 = print (''[Captain] Handling '' @ kind envelope @ '' from '' @ sender envelope) w
      in case validate_model L d
                [(''sender'', PStr (agent_id self)),
                 (''recipient'', PStr (sender envelope)),
                 (''priority'', PInt (priority envelope)),
                 (''kind'', PStr ''response''),
                 (''content'', PDict [(''status'', PStr ''ack''),
                                      (''echo'', PDict (content envelope))])] of
           Inl x \<Rightarrow> (Some x, w1)
         | Inr response \<Rightarrow> (None, publish (bus self) response w1))"

definition captain :: BaseAgent where
  "captain = \<lparr>agent_id = ''captain'', bus = RedisBus_init\<rparr>"

section \<open>Example values\<close>

text \<open>
  A library that coerces nothing, a clock and a UUID source, and the envelopes of the
  spec's scenarios.
\<close>

definition no_coercion :: pylib where
  "no_coercion = \<lparr>coerce = (\<lambda>name v. None), str_of_error = (\<lambda>locs. ''validation error'')\<rparr>"

definition noon :: datetime where
  "noon = \<lparr>year = 2024, month = 2, day = 29, hour = 12, minute = 30, second = 5,
           microsecond = 0, tzinfo = None\<rparr>"

definition factories :: defaults where
  "factories = \<lparr>uuid4 = 7, utcnow = noon\<rparr>"


definition patrol :: Envelope where
  "patrol = \<lparr>message_id = 255, ts = noon, sender = ''sergeant'', recipient = RStr ''captain'',
             priority = 2, kind = ''request'', content = [(''task'', PStr ''patrol'')]\<rparr>"




text \<open>Keyword sets that leave the optional fields out, and an empty world.\<close>

definition minimal_kw :: "(string \<times> pyval) list" where
  "minimal_kw =
     [(''sender'', PStr ''sergeant''), (''recipient'', PStr ''captain''),
      (''kind'', PStr ''request'')]"


definition nobody_kw :: "(string \<times> pyval) list" where
  "nobody_kw =
     [(''sender'', PStr ''sergeant''), (''recipient'', PList []), (''kind'', PStr ''request'')]"

definition quiet :: world where
  "quiet = \<lparr>console = [], appended = []\<rparr>"

text \<open>
  Handlers that fail, one with an \<open>Exception\<close> and one with \<open>SystemExit\<close>; stream
  entries with a good payload, with a payload that is not JSON and with no payload; a
  log holding one entry from before the subscription and four appended after it.
\<close>

definition failing :: handler where
  "failing envelope w = (Some (Raised True ''boom''), w)"

definition exiting :: handler where
  "exiting envelope w = (Some (Raised False ''exit''), w)"

definition good_entry :: "string \<Rightarrow> entry" where
  "good_entry i = (i, [(''data'', envelope_json patrol)])"

definition garbled_entry :: "string \<Rightarrow> entry" where
  "garbled_entry i = (i, [(''data'', NotJson ''{oops'')])"

definition bare_entry :: "string \<Rightarrow> entry" where
  "bare_entry i = (i, [(''note'', NotJson ''hello'')])"

definition stream_log :: broker where
  "stream_log =
     \<lparr>older = [good_entry ''1-0''],
      newer = [good_entry ''2-0'', garbled_entry ''3-0'', bare_entry ''4-0'', good_entry ''5-0'']\<rparr>"

section \<open>Codec lemmas\<close>

lemma digit_val_digit_char:
  "d < b \<Longrightarrow> b \<le> 36 \<Longrightarrow> digit_val b (digit_char d) = Some d"
  by (simp add: digit_val_def digit_char_def Let_def)

lemma length_zdigits: "length (zdigits b n v) = n"
  by (induction n arbitrary: v) simp_all

lemma undigits_from_append:
  "undigits_from b acc (xs @ ys) =
     (case undigits_from b acc xs of None \<Rightarrow> None | Some a \<Rightarrow> undigits_from b a ys)"
  by (induction xs arbitrary: acc) (simp_all split: option.splits)

lemma undigits_from_zdigits:
  "1 < b \<Longrightarrow> b \<le> 36 \<Longrightarrow> v < b ^ n \<Longrightarrow>
   undigits_from b acc (zdigits b n v) = Some (acc * b ^ n + v)"
proof (induction n arbitrary: v acc)
  case 0
  then show ?case by simp
next
  case (Suc n)
  have small: "v div b < b ^ n"
    using Suc.prems by (simp add: less_mult_imp_div_less mult.commute)
  have digit: "v mod b < b"
    using Suc.prems by simp
  show ?case
    using Suc.IH [OF Suc.prems(1,2) small, of acc] Suc.prems(1,2) digit
    by (simp add: undigits_from_append digit_val_digit_char algebra_simps)
qed

lemma undigits_zdigits:
  "1 < b \<Longrightarrow> b \<le> 36 \<Longrightarrow> v < b ^ n \<Longrightarrow> undigits b (zdigits b n v) = Some v"
  by (simp add: undigits_def undigits_from_zdigits)

lemma take_digits_zdigits:
  "1 < b \<Longrightarrow> b \<le> 36 \<Longrightarrow> v < b ^ n \<Longrightarrow>
   take_digits b n (zdigits b n v @ rest) = Some (v, rest)"
  by (simp add: take_digits_def length_zdigits undigits_zdigits)

lemma expect_Cons: "expect c (c # rest) = Some rest"
  by (simp add: expect_def)

lemma uuid_glue:
  "take 8 h @ take 4 (drop 8 h) @ take 4 (drop 12 h) @ take 4 (drop 16 h) @ drop 20 h = h"
proof -
  have a: "take 4 (drop 16 h) @ drop 20 h = drop 16 h"
    using append_take_drop_id [of 4 "drop 16 h"] by simp
  have b: "take 4 (drop 12 h) @ drop 16 h = drop 12 h"
    using append_take_drop_id [of 4 "drop 12 h"] by simp
  have c: "take 4 (drop 8 h) @ drop 12 h = drop 8 h"
    using append_take_drop_id [of 4 "drop 8 h"] by simp
  show ?thesis
    by (simp only: a b c append_take_drop_id)
qed

lemma uuid_str_shape:
  assumes "length h = 32"
  defines "s \<equiv> take 8 h @ ''-'' @ take 4 (drop 8 h) @ ''-'' @ take 4 (drop 12 h) @ ''-''
         @ take 4 (drop 16 h) @ ''-'' @ drop 20 h"
  shows "length s = 36" "s ! 8 = CHR ''-''" "s ! 13 = CHR ''-''" "s ! 18 = CHR ''-''"
    "s ! 23 = CHR ''-''"
    "take 8 s @ take 4 (drop 9 s) @ take 4 (drop 14 s) @ take 4 (drop 19 s) @ drop 24 s = h"
proof -
  show "length s = 36" "s ! 8 = CHR ''-''" "s ! 13 = CHR ''-''" "s ! 18 = CHR ''-''"
    "s ! 23 = CHR ''-''"
    using assms(1) by (simp_all add: s_def nth_append)
  have "take 8 s = take 8 h" "take 4 (drop 9 s) = take 4 (drop 8 h)"
    "take 4 (drop 14 s) = take 4 (drop 12 h)" "take 4 (drop 19 s) = take 4 (drop 16 h)"
    "drop 24 s = drop 20 h"
    using assms(1) by (simp_all add: s_def)
  then show "take 8 s @ take 4 (drop 9 s) @ take 4 (drop 14 s) @ take 4 (drop 19 s) @ drop 24 s = h"
    by (simp only: uuid_glue)
qed

lemma uuid_parse_str: "uuid_parse (uuid_str u) = Some u"
proof -
  define h where "h = zdigits 16 32 (unat u)"
  define s where "s = take 8 h @ ''-'' @ take 4 (drop 8 h) @ ''-'' @ take 4 (drop 12 h) @ ''-''
         @ take 4 (drop 16 h) @ ''-'' @ drop 20 h"
  have len: "length h = 32"
    unfolding h_def by (rule length_zdigits)
  have small: "unat u < 16 ^ 32"
    using unsigned_less [of u] by simp
  have rd: "undigits 16 h = Some (unat u)"
    unfolding h_def by (rule undigits_zdigits) (use small in simp_all)
  note shape = uuid_str_shape [OF len, folded s_def]
  have str: "uuid_str u = s"
    unfolding uuid_str_def Let_def h_def [symmetric] s_def ..
  have "uuid_parse s = map_option word_of_nat (undigits 16 h)"
    unfolding uuid_parse_def by (simp only: shape simp_thms if_True)
  then show ?thesis
    by (simp add: str rd)
qed

lemma days_in_month_le: "days_in_month y m \<le> 31"
  by (simp add: days_in_month_def)

lemma take2: "v < 100 \<Longrightarrow> take_digits 10 2 (zdigits 10 2 v @ rest) = Some (v, rest)"
  by (rule take_digits_zdigits) simp_all

lemma take4: "v < 10000 \<Longrightarrow> take_digits 10 4 (zdigits 10 4 v @ rest) = Some (v, rest)"
  by (rule take_digits_zdigits) simp_all

lemma take6: "v < 1000000 \<Longrightarrow> take_digits 10 6 (zdigits 10 6 v @ rest) = Some (v, rest)"
  by (rule take_digits_zdigits) simp_all

lemma parse_offset_format:
  assumes "case off of None \<Rightarrow> True | Some m \<Rightarrow> - 1440 < m \<and> m < 1440"
  shows "parse_offset (format_offset off) = Some off"
proof (cases off)
  case None
  then show ?thesis by (simp add: parse_offset_def format_offset_def)
next
  case (Some m)
  define n where "n = nat \<bar>m\<bar>"
  have n: "n < 1440" using assms Some unfolding n_def by (simp split: option.splits) linarith
  have hh: "n div 60 < 100" and mm: "n mod 60 < 100" using n by simp_all
  have two: "take_digits 10 2 (zdigits 10 2 (n mod 60) @ []) = Some (n mod 60, [])"
    by (rule take2 [OF mm])
  have val: "int (60 * (n div 60) + n mod 60) = \<bar>m\<bar>"
    by (simp add: n_def)
  have body: "parse_offset (c # zdigits 10 2 (n div 60) @ '':'' @ zdigits 10 2 (n mod 60))
      = Some (Some (if c = CHR ''-'' then - \<bar>m\<bar> else \<bar>m\<bar>))"
    if "c = CHR ''+'' \<or> c = CHR ''-''" for c
    using that two val unfolding parse_offset_def
    by (simp add: take2 [OF hh] expect_Cons del: of_nat_add of_nat_mult)
  show ?thesis
  proof (cases "m < 0")
    case True
    then show ?thesis using body [of "CHR ''-''"] Some
      by (simp add: format_offset_def n_def)
  next
    case False
    then show ?thesis using body [of "CHR ''+''"] Some
      by (simp add: format_offset_def n_def)
  qed
qed

lemma parse_fraction_format:
  assumes "us < 1000000"
  shows "parse_fraction ((if us = 0 then [] else ''.'' @ zdigits 10 6 us) @ format_offset off)
         = Some (us, format_offset off)"
proof (cases "us = 0")
  case True
  have "parse_fraction (format_offset off) = Some (0, format_offset off)"
    by (cases off) (simp_all add: parse_fraction_def format_offset_def)
  then show ?thesis using True by simp
next
  case False
  then show ?thesis using take6 [OF assms, of "format_offset off"]
    by (simp add: parse_fraction_def)
qed

lemma iso_parse_isoformat:
  assumes "valid_datetime t"
  shows "iso_parse (isoformat t) = Some t"
proof -
  have y: "year t < 10000" and mo: "month t < 100" and d: "day t < 100"
    and h: "hour t < 100" and mi: "minute t < 100" and s: "second t < 100"
    and us: "microsecond t < 1000000"
    and off: "case tzinfo t of None \<Rightarrow> True | Some m \<Rightarrow> - 1440 < m \<and> m < 1440"
    using assms days_in_month_le [of "year t" "month t"]
    by (simp_all add: valid_datetime_def)
  have rebuilt: "\<lparr>year = year t, month = month t, day = day t, hour = hour t,
      minute = minute t, second = second t, microsecond = microsecond t,
      tzinfo = tzinfo t\<rparr> = t"
    by simp
  show ?thesis
    unfolding iso_parse_def isoformat_def
    by (simp add: take4 [OF y] take2 [OF mo] take2 [OF d] take2 [OF h] take2 [OF mi]
        take2 [OF s] expect_Cons parse_fraction_format [OF us] parse_offset_format [OF off]
        rebuilt assms)
qed

section \<open>Envelope lemmas\<close>

lemma of_json_to_json: "json_native v \<Longrightarrow> of_json (to_json v) = v"
proof (induction v)
  case (PList xs)
  then show ?case by (simp add: list_all_iff map_idI)
next
  case (PDict kvs)
  have "map ((\<lambda>(k, v). (k, of_json v)) \<circ> (\<lambda>(k, v). (k, to_json v))) kvs = kvs"
  proof (rule map_idI)
    fix kv assume kv: "kv \<in> set kvs"
    obtain k v where eq: "kv = (k, v)" by (cases kv)
    have "json_native v" using PDict.prems kv eq by (auto simp: list_all_iff)
    moreover have "v \<in> Basic_BNFs.snds kv" using eq by simp
    ultimately have "of_json (to_json v) = v" using PDict.IH kv by blast
    then show "((\<lambda>(k, v). (k, of_json v)) \<circ> (\<lambda>(k, v). (k, to_json v))) kv = kv"
      using eq by simp
  qed
  then show ?case by simp
qed simp_all

lemma rcpt_exact_rcpt_val: "rcpt_exact (rcpt_val r) = Some r"
proof (cases r)
  case (RStr s)
  then show ?thesis by (simp add: rcpt_exact_def rcpt_val_def)
next
  case (RList xs)
  have "list_all (\<lambda>x. str_exact x \<noteq> None) (map PStr xs)"
    by (simp add: list_all_iff str_exact_def)
  moreover have "map (\<lambda>x. the (str_exact x)) (map PStr xs) = xs"
    by (simp add: str_exact_def comp_def)
  ultimately show ?thesis using RList by (simp add: rcpt_exact_def rcpt_val_def)
qed

lemma json_native_rcpt_val: "json_native (rcpt_val r)"
  by (cases r) (simp_all add: rcpt_val_def list_all_iff)

lemma rcpt_val_not_None: "rcpt_val r \<noteq> PNone"
  by (cases r) (simp_all add: rcpt_val_def)

lemma exact_or_coerce_exact: "exact v = Some x \<Longrightarrow> exact_or_coerce L name exact v = Some x"
  by (simp add: exact_or_coerce_def)

text \<open>The document of an envelope, read back.\<close>

lemma of_json_envelope:
  assumes "list_all (\<lambda>(k, v). json_native v) (content e)"
  shows "of_json (to_json (PDict (to_dict e))) =
     PDict [(''message_id'', PStr (uuid_str (message_id e))), (''ts'', PStr (isoformat (ts e))),
            (''sender'', PStr (sender e)), (''recipient'', rcpt_val (recipient e)),
            (''priority'', PInt (priority e)), (''kind'', PStr (kind e)),
            (''content'', PDict (content e))]"
proof -
  have c: "of_json (to_json (PDict (content e))) = PDict (content e)"
    by (rule of_json_to_json) (use assms in simp)
  have r: "of_json (to_json (rcpt_val (recipient e))) = rcpt_val (recipient e)"
    by (rule of_json_to_json) (rule json_native_rcpt_val)
  show ?thesis using c r by (simp add: to_dict_def)
qed

lemma validate_model_wire:
  assumes "valid_envelope e"
  shows "validate_model L d
     [(''message_id'', PStr (uuid_str (message_id e))), (''ts'', PStr (isoformat (ts e))),
      (''sender'', PStr (sender e)), (''recipient'', rcpt_val (recipient e)),
      (''priority'', PInt (priority e)), (''kind'', PStr (kind e)),
      (''content'', PDict (content e))] = Inr e"
proof -
  have t: "iso_parse (isoformat (ts e)) = Some (ts e)"
    using assms by (simp add: valid_envelope_def iso_parse_isoformat)
  have f1: "exact_or_coerce L ''message_id'' uuid_exact (PStr (uuid_str (message_id e))) = Some (message_id e)"
    by (rule exact_or_coerce_exact) (simp add: uuid_exact_def uuid_parse_str)
  have f2: "exact_or_coerce L ''ts'' datetime_exact (PStr (isoformat (ts e))) = Some (ts e)"
    by (rule exact_or_coerce_exact) (simp add: datetime_exact_def t)
  have f3: "exact_or_coerce L ''sender'' str_exact (PStr (sender e)) = Some (sender e)"
    by (rule exact_or_coerce_exact) (simp add: str_exact_def)
  have f4: "exact_or_coerce L ''recipient'' rcpt_exact (rcpt_val (recipient e)) = Some (recipient e)"
    by (rule exact_or_coerce_exact) (rule rcpt_exact_rcpt_val)
  have f5: "priority_validator L (PInt (priority e)) = Some (priority e)"
    using assms by (simp add: priority_validator_def exact_or_coerce_def int_exact_def valid_envelope_def)
  have f6: "kind_validator (PStr (kind e)) = Some (kind e)"
    using assms by (simp add: kind_validator_def valid_envelope_def)
  have f7: "exact_or_coerce L ''content'' dict_exact (PDict (content e)) = Some (content e)"
    by (rule exact_or_coerce_exact) (simp add: dict_exact_def)
  show ?thesis
    unfolding validate_model_def
    by (simp add: field_def failed_def f1 f2 f3 f4 f5 f6 f7 rcpt_val_not_None)
qed

lemma parse_raw_envelope_json:
  assumes "valid_envelope e" and "list_all (\<lambda>(k, v). json_native v) (content e)"
  shows "parse_raw L d (envelope_json e) = Inr e"
  unfolding parse_raw_def envelope_json_def parse_obj_def
  by (simp add: of_json_envelope [OF assms(2)] exact_or_coerce_def dict_exact_def
      validate_model_wire [OF assms(1)] del: to_json.simps of_json.simps)

lemma valid_noon: "valid_datetime noon"
  by (simp add: valid_datetime_def noon_def days_in_month_def is_leap_def)

lemma valid_patrol: "valid_envelope patrol"
  by (simp add: valid_envelope_def patrol_def kinds_def valid_noon)






lemma validate_model_Inr:
  assumes "validate_model L d kw = Inr e"
  shows "field kw ''message_id'' (Some (uuid4 d)) (exact_or_coerce L ''message_id'' uuid_exact) = Some (message_id e)"
    and "field kw ''ts'' (Some (utcnow d)) (exact_or_coerce L ''ts'' datetime_exact) = Some (ts e)"
    and "field kw ''sender'' None (exact_or_coerce L ''sender'' str_exact) = Some (sender e)"
    and "field kw ''recipient'' None (exact_or_coerce L ''recipient'' rcpt_exact) = Some (recipient e)"
    and "field kw ''priority'' (Some 3) (priority_validator L) = Some (priority e)"
    and "field kw ''kind'' None kind_validator = Some (kind e)"
    and "field kw ''content'' (Some []) (exact_or_coerce L ''content'' dict_exact) = Some (content e)"
  using assms
  by (auto simp: validate_model_def Let_def failed_def split: if_splits)

lemma validate_model_Inl:
  assumes "validate_model L d kw = Inl x"
  shows "x = ValidationError
      (failed ''message_id'' (field kw ''message_id'' (Some (uuid4 d)) (exact_or_coerce L ''message_id'' uuid_exact))
       @ failed ''ts'' (field kw ''ts'' (Some (utcnow d)) (exact_or_coerce L ''ts'' datetime_exact))
       @ failed ''sender'' (field kw ''sender'' None (exact_or_coerce L ''sender'' str_exact))
       @ failed ''recipient'' (field kw ''recipient'' None (exact_or_coerce L ''recipient'' rcpt_exact))
       @ failed ''priority'' (field kw ''priority'' (Some 3) (priority_validator L))
       @ failed ''kind'' (field kw ''kind'' None kind_validator)
       @ failed ''content'' (field kw ''content'' (Some []) (exact_or_coerce L ''content'' dict_exact)))"
  using assms
  by (simp add: validate_model_def Let_def split: if_splits)

lemma validate_model_fails:
  assumes "field kw ''sender'' None (exact_or_coerce L ''sender'' str_exact) = None
    \<or> field kw ''recipient'' None (exact_or_coerce L ''recipient'' rcpt_exact) = None
    \<or> field kw ''priority'' (Some 3) (priority_validator L) = None
    \<or> field kw ''kind'' None kind_validator = None"
  shows "\<exists>locs. validate_model L d kw = Inl (ValidationError locs)"
  using assms
  by (auto simp: validate_model_def Let_def failed_def)


lemma recipient_loc:
  assumes "validate_model L d kw = Inl (ValidationError locs)"
    and "field kw ''recipient'' None (exact_or_coerce L ''recipient'' rcpt_exact) \<noteq> None"
  shows "''recipient'' \<notin> set locs"
  using validate_model_Inl [OF assms(1)] assms(2)
  by (simp add: failed_def)

lemma priority_out_of_range:
  "i < 1 \<or> 5 < i \<Longrightarrow> priority_validator L (PInt i) = None"
  by (auto simp: priority_validator_def exact_or_coerce_def int_exact_def)

lemma kind_refused: "v \<notin> PStr ` set kinds \<Longrightarrow> kind_validator v = None"
  by (cases v) (auto simp: kind_validator_def)

lemma length_uuid_str: "length (uuid_str u) = 36"
  by (simp add: uuid_str_def Let_def length_zdigits)

lemma isoformat_not_empty: "isoformat t \<noteq> []"
proof -
  have "length (isoformat t) \<ge> 4"
    by (simp add: isoformat_def length_zdigits)
  then show ?thesis by auto
qed

lemma construct_minimal:
  "validate_model no_coercion factories minimal_kw =
     Inr \<lparr>message_id = 7, ts = noon, sender = ''sergeant'', recipient = RStr ''captain'',
          priority = 3, kind = ''request'', content = []\<rparr>"
  by (simp add: validate_model_def minimal_kw_def factories_def field_def failed_def
      exact_or_coerce_def str_exact_def rcpt_exact_def kind_validator_def kinds_def)


lemma construct_nobody:
  "validate_model no_coercion factories nobody_kw =
     Inr \<lparr>message_id = 7, ts = noon, sender = ''sergeant'', recipient = RList [],
          priority = 3, kind = ''request'', content = []\<rparr>"
  by (simp add: validate_model_def nobody_kw_def factories_def field_def failed_def
      exact_or_coerce_def str_exact_def rcpt_exact_def kind_validator_def kinds_def)


lemma field_empty_list: "map_of kw name = Some (PList []) \<Longrightarrow>
  field kw name None (exact_or_coerce L name rcpt_exact) = Some (RList [])"
  by (simp add: field_def exact_or_coerce_def rcpt_exact_def)

lemma should_handle_iff:
  "should_handle self e \<longleftrightarrow>
     recipient e = RStr (agent_id self) \<or> recipient e = RStr ''broadcast''
     \<or> (\<exists>xs. recipient e = RList xs \<and> agent_id self \<in> set xs)"
  by (cases "recipient e") (auto simp: should_handle_def rcpt_eq_def Let_def)

section \<open>Subscription lemmas\<close>

lemma on_messages_append:
  "on_messages L fac (xs @ ys) st = on_messages L fac ys (on_messages L fac xs st)"
  by (induction xs arbitrary: st) simp_all

lemma on_streams_concat:
  "on_streams L fac r st = on_messages L fac (concat (map snd r)) st"
  by (induction r arbitrary: st) (simp_all add: on_messages_append)

lemma last_id_on_message: "last_id (on_message L fac m st) = fst m"
  by (simp add: on_message_def Let_def split: option.splits sum.splits)

lemma last_id_on_messages:
  "last_id (on_messages L fac ms st) = (if ms = [] then last_id st else fst (last ms))"
  by (induction ms arbitrary: st) (simp_all add: last_id_on_message)

lemma events_on_message:
  "events (on_message L fac m st) = events st @ events (on_message L fac m subscribe_init)"
  by (simp add: on_message_def Let_def subscribe_init_def split: option.splits sum.splits)

lemma events_on_messages:
  "events (on_messages L fac ms st) = events st @ events (on_messages L fac ms subscribe_init)"
proof (induction ms arbitrary: st)
  case Nil
  then show ?case by (simp add: subscribe_init_def)
next
  case (Cons m ms)
  have "events (on_messages L fac (m # ms) st)
      = events (on_message L fac m st) @ events (on_messages L fac ms subscribe_init)"
    using Cons.IH [of "on_message L fac m st"] by simp
  also have "\<dots> = events st @ events (on_message L fac m subscribe_init)
      @ events (on_messages L fac ms subscribe_init)"
    using events_on_message [of L fac m st] by simp
  also have "events (on_message L fac m subscribe_init)
      @ events (on_messages L fac ms subscribe_init)
      = events (on_messages L fac (m # ms) subscribe_init)"
    using Cons.IH [of "on_message L fac m subscribe_init"] by simp
  finally show ?case .
qed

lemma pending_suffix: "\<exists>pre. older B @ newer B = pre @ pending B a"
proof (cases "a = ''$''")
  case True
  then show ?thesis by (auto simp: pending_def)
next
  case False
  let ?log = "older B @ newer B"
  let ?d = "dropWhile (\<lambda>m. fst m \<noteq> a) ?log"
  show ?thesis
  proof (cases ?d)
    case Nil
    have "pending B a = []"
      by (simp only: pending_def False if_False Nil list.sel)
    then have "?log = ?log @ pending B a" by simp
    then show ?thesis by blast
  next
    case (Cons x xs)
    have "?log = takeWhile (\<lambda>m. fst m \<noteq> a) ?log @ ?d" by simp
    then have "?log = (takeWhile (\<lambda>m. fst m \<noteq> a) ?log @ [x]) @ pending B a"
      using Cons False by (simp add: pending_def)
    then show ?thesis by blast
  qed
qed

lemma dropWhile_distinct:
  assumes "distinct (map fst (xs @ x # ys))"
  shows "dropWhile (\<lambda>m. fst m \<noteq> fst x) (xs @ x # ys) = x # ys"
proof -
  have "fst x \<notin> fst ` set xs"
    using assms by auto
  then have "\<And>m. m \<in> set xs \<Longrightarrow> fst m \<noteq> fst x"
    by (metis imageI)
  then show ?thesis by (simp add: dropWhile_append2)
qed

lemma pending_advance:
  assumes d: "distinct (map fst (older B @ newer B))"
    and s: "''$'' \<notin> fst ` set (older B @ newer B)"
    and n: "0 < n" "n \<le> length (pending B a)"
  shows "pending B (fst (pending B a ! (n - 1))) = drop n (pending B a)"
proof -
  let ?P = "pending B a"
  let ?x = "?P ! (n - 1)"
  obtain pre where log: "older B @ newer B = pre @ ?P"
    using pending_suffix by blast
  have lt: "n - 1 < length ?P" using n by simp
  have P: "?P = take (n - 1) ?P @ ?x # drop n ?P"
    using id_take_nth_drop [OF lt] n by simp
  have log2: "older B @ newer B = (pre @ take (n - 1) ?P) @ ?x # drop n ?P"
    using log P by (metis append.assoc)
  have "?x \<in> set (older B @ newer B)"
    using log lt by (metis nth_mem set_append UnCI)
  then have nd: "fst ?x \<noteq> ''$''" using s by force
  have "dropWhile (\<lambda>m. fst m \<noteq> fst ?x) (older B @ newer B) = ?x # drop n ?P"
    using dropWhile_distinct [of "pre @ take (n - 1) ?P" ?x "drop n ?P"] d log2 by simp
  then show ?thesis using nd by (simp add: pending_def)
qed

lemma subscribe_one_pass:
  assumes d: "distinct (map fst (older B @ newer B))"
    and s: "''$'' \<notin> fst ` set (older B @ newer B)"
  shows "subscribe L fac b B ks st
         = on_messages L fac (take (sum_list ks) (pending B (last_id st))) st"
proof (induction ks arbitrary: st)
  case Nil
  then show ?case by simp
next
  case (Cons k ks)
  let ?P = "pending B (last_id st)"
  let ?ms = "take k ?P"
  show ?case
  proof (cases "?ms = []")
    case True
    then have "take (k + sum_list ks) ?P = take (sum_list ks) ?P"
      by (cases "k = 0") auto
    then show ?thesis using True Cons.IH [of st] by (simp add: xread_def)
  next
    case False
    define n where "n = length ?ms"
    let ?st = "on_messages L fac ?ms st"
    have n: "0 < n" "n \<le> length ?P" using False by (simp_all add: n_def)
    have "n \<le> k" by (simp add: n_def)
    then have "n - 1 < k" using n(1) by linarith
    then have "?ms ! (n - 1) = ?P ! (n - 1)" by (rule nth_take)
    moreover have "last ?ms = ?ms ! (n - 1)"
      unfolding n_def using False by (rule last_conv_nth)
    ultimately have "last ?ms = ?P ! (n - 1)" by simp
    then have "last_id ?st = fst (?P ! (n - 1))"
      using False by (simp add: last_id_on_messages)
    then have next_pending: "pending B (last_id ?st) = drop n ?P"
      using pending_advance [OF d s n, of] by simp
    have glue: "?ms @ take (sum_list ks) (drop n ?P) = take (k + sum_list ks) ?P"
    proof (cases "k \<le> length ?P")
      case True
      then have "n = k" by (simp add: n_def)
      then show ?thesis by (simp add: take_add)
    next
      case False
      then have "n = length ?P" by (simp add: n_def)
      then show ?thesis using False by simp
    qed
    have "subscribe L fac b B (k # ks) st = subscribe L fac b B ks ?st"
      using False by (simp add: xread_def Let_def)
    also have "\<dots> = on_messages L fac (take (sum_list ks) (drop n ?P)) ?st"
      using Cons.IH [of ?st] next_pending by simp
    also have "\<dots> = on_messages L fac (take (k + sum_list ks) ?P) st"
      using glue by (metis on_messages_append)
    finally show ?thesis by simp
  qed
qed

lemma parse_patrol: "parse_raw L d (envelope_json patrol) = Inr patrol"
  by (rule parse_raw_envelope_json [OF valid_patrol]) (simp add: patrol_def)

lemma on_message_good:
  "on_message L fac (good_entry i) st = st\<lparr>last_id := i, events := events st @ [Yielded patrol]\<rparr>"
  by (simp add: on_message_def good_entry_def parse_patrol)

lemma on_message_garbled:
  "on_message no_coercion fac (garbled_entry i) st =
     st\<lparr>last_id := i,
        events := events st @ [Printed ''[RedisBus] Failed to parse envelope: validation error'']\<rparr>"
  by (simp add: on_message_def garbled_entry_def parse_raw_def exc_str_def no_coercion_def)

lemma on_message_bare: "on_message L fac (bare_entry i) st = st\<lparr>last_id := i\<rparr>"
  by (simp add: on_message_def bare_entry_def)

lemma stream_log_ids:
  "distinct (map fst (older stream_log @ newer stream_log))"
  "''$'' \<notin> fst ` set (older stream_log @ newer stream_log)"
  by (simp_all add: stream_log_def good_entry_def garbled_entry_def bare_entry_def)

lemma safe_handle_caught:
  assumes "handle e w = (Some x, w1)" and "is_Exception x"
  shows "safe_handle L self handle e w =
     (None, print (''['' @ agent_id self @ ''] Error while handling message: '' @ exc_str L x) w1)"
  using assms by (simp add: safe_handle_def)

lemma safe_handle_returns:
  assumes "\<forall>e w x w1. handle e w = (Some x, w1) \<longrightarrow> is_Exception x"
  shows "\<exists>w1. safe_handle L self handle e w = (None, w1)"
proof (cases "handle e w")
  case (Pair r w1)
  show ?thesis
  proof (cases r)
    case None
    then show ?thesis using Pair by (simp add: safe_handle_def)
  next
    case (Some x)
    then have "is_Exception x" using assms Pair by blast
    then show ?thesis using Pair Some by (simp add: safe_handle_def)
  qed
qed

lemma receive_dispatches_all:
  assumes "\<forall>e w x w1. handle e w = (Some x, w1) \<longrightarrow> is_Exception x"
  shows "\<exists>s1. receive L self handle evs s = (None, s1)
     \<and> tasks s1 = tasks s @ filter (should_handle self) (yielded evs)"
proof (induction evs arbitrary: s)
  case Nil
  then show ?case by simp
next
  case (Cons ev evs)
  show ?case
  proof (cases ev)
    case (Printed line)
    then show ?thesis using Cons.IH [of "s\<lparr>effects := print line (effects s)\<rparr>"] by simp
  next
    case (Yielded e)
    show ?thesis
    proof (cases "should_handle self e")
      case False
      then show ?thesis using Yielded Cons.IH [of s] by simp
    next
      case True
      obtain w1 where w1: "safe_handle L self handle e (effects s) = (None, w1)"
        using safe_handle_returns [OF assms] by blast
      show ?thesis
        using Yielded True w1 Cons.IH [of "s\<lparr>tasks := tasks s @ [e], effects := w1\<rparr>"]
        by simp
    qed
  qed
qed

lemma on_message_failed:
  assumes "map_of (snd m) ''data'' = Some raw" and "parse_raw L (fac (fst m)) raw = Inl x"
  shows "on_message L fac m st =
     st\<lparr>last_id := fst m,
        events := events st @ [Printed (''[RedisBus] Failed to parse envelope: '' @ exc_str L x)]\<rparr>"
  using assms by (simp add: on_message_def)

lemma on_message_absent:
  assumes "map_of (snd m) ''data'' = None"
  shows "on_message L fac m st = st\<lparr>last_id := fst m\<rparr>"
  using assms by (simp add: on_message_def)

lemma events_split:
  "events (on_messages L fac (before @ m # after) st) =
     events (on_messages L fac before st) @ events (on_message L fac m subscribe_init)
     @ events (on_messages L fac after subscribe_init)"
proof -
  have "events (on_messages L fac (before @ m # after) st)
      = events (on_messages L fac (m # after) (on_messages L fac before st))"
    by (simp add: on_messages_append)
  also have "\<dots> = events (on_messages L fac before st)
      @ events (on_messages L fac (m # after) subscribe_init)"
    by (rule events_on_messages)
  also have "events (on_messages L fac (m # after) subscribe_init)
      = events (on_message L fac m subscribe_init) @ events (on_messages L fac after subscribe_init)"
    using events_on_messages [of L fac after "on_message L fac m subscribe_init"] by simp
  finally show ?thesis .
qed

lemma good_entry_yielded:
  assumes "m \<in> set ms" and "map_of (snd m) ''data'' = Some raw"
    and "parse_raw L (fac (fst m)) raw = Inr e"
  shows "Yielded e \<in> set (events (on_messages L fac ms st))"
proof -
  obtain before after where ms: "ms = before @ m # after"
    using assms(1) by (meson split_list)
  have "events (on_message L fac m subscribe_init) = [Yielded e]"
    using assms(2,3) by (simp add: on_message_def subscribe_init_def)
  then show ?thesis
    unfolding ms events_split by simp
qed

lemma subscribe_new_entries:
  assumes "distinct (map fst (older B @ newer B))"
    and "''$'' \<notin> fst ` set (older B @ newer B)"
    and "length (newer B) \<le> sum_list ks"
  shows "subscribe L fac b B ks subscribe_init = on_messages L fac (newer B) subscribe_init"
proof -
  have "pending B (last_id subscribe_init) = newer B"
    by (simp add: pending_def subscribe_init_def)
  then show ?thesis
    using subscribe_one_pass [OF assms(1,2), of L fac b ks subscribe_init] assms(3) by simp
qed

lemma pending_after_pass:
  assumes d: "distinct (map fst (older B @ newer B))"
    and s: "''$'' \<notin> fst ` set (older B @ newer B)"
  shows "pending B (last_id (on_messages L fac (take n (pending B (last_id st))) st))
         = drop n (pending B (last_id st))"
proof -
  let ?P = "pending B (last_id st)"
  let ?ms = "take n ?P"
  show ?thesis
  proof (cases "?ms = []")
    case True
    then have "drop n ?P = ?P" by (cases "n = 0") auto
    moreover have "on_messages L fac ?ms st = st"
      using True by (simp only: on_messages.simps)
    ultimately show ?thesis by simp
  next
    case False
    define k where "k = length ?ms"
    have k: "0 < k" "k \<le> length ?P" using False by (simp_all add: k_def)
    have "k \<le> n" by (simp add: k_def)
    then have "k - 1 < n" using k(1) by linarith
    then have "?ms ! (k - 1) = ?P ! (k - 1)" by (rule nth_take)
    moreover have "last ?ms = ?ms ! (k - 1)"
      unfolding k_def using False by (rule last_conv_nth)
    ultimately have "last_id (on_messages L fac ?ms st) = fst (?P ! (k - 1))"
      using False by (simp add: last_id_on_messages)
    then have "pending B (last_id (on_messages L fac ?ms st)) = drop k ?P"
      using pending_advance [OF d s k] by simp
    moreover have "drop k ?P = drop n ?P"
    proof (cases "n \<le> length ?P")
      case True
      then have "k = n" by (simp add: k_def)
      then show ?thesis by simp
    next
      case False
      then have "k = length ?P" by (simp add: k_def)
      then show ?thesis using False by simp
    qed
    ultimately show ?thesis by simp
  qed
qed

section \<open>The claims\<close>




text \<open>
  C2. For every valid inbound envelope, the Captain's handler returns normally after
  printing its line and appending exactly one entry to the bus's stream: the JSON of a
  new envelope whose sender is the Captain's identifier, whose recipient is the inbound
  sender, whose kind is \<open>response\<close>, whose priority is the inbound priority, and whose
  content binds \<open>status\<close> to \<open>ack\<close> and \<open>echo\<close> to the whole inbound content
  (its \<open>message_id\<close> and \<open>ts\<close> come from the default factories).
\<close>

theorem captain_acknowledges:
  assumes "valid_envelope e"
  shows "captain_handle L d self e w =
     (None,
      w\<lparr>console := console w @ [''[Captain] Handling '' @ kind e @ '' from '' @ sender e],
        appended := appended w @
         [(stream_key (bus self),
           [(''data'', envelope_json
              \<lparr>message_id = uuid4 d, ts = utcnow d, sender = agent_id self,
               recipient = RStr (sender e), priority = priority e, kind = ''response'',
               content = [(''status'', PStr ''ack''), (''echo'', PDict (content e))]\<rparr>)])]\<rparr>)"
proof -
  have p: "priority_validator L (PInt (priority e)) = Some (priority e)"
    using assms
    by (simp add: priority_validator_def exact_or_coerce_def int_exact_def valid_envelope_def)
  have "validate_model L d
          [(''sender'', PStr (agent_id self)), (''recipient'', PStr (sender e)),
           (''priority'', PInt (priority e)), (''kind'', PStr ''response''),
           (''content'', PDict [(''status'', PStr ''ack''), (''echo'', PDict (content e))])]
        = Inr \<lparr>message_id = uuid4 d, ts = utcnow d, sender = agent_id self,
               recipient = RStr (sender e), priority = priority e, kind = ''response'',
               content = [(''status'', PStr ''ack''), (''echo'', PDict (content e))]\<rparr>"
    by (simp add: validate_model_def field_def failed_def p exact_or_coerce_def str_exact_def
        rcpt_exact_def kind_validator_def kinds_def dict_exact_def)
  then show ?thesis
    by (simp add: captain_handle_def publish_def print_def Let_def)
qed

text \<open>The spec's scenario: the sergeant's patrol request, acknowledged.\<close>

theorem captain_acknowledges_witness:
  "valid_envelope patrol
   \<and> captain_handle no_coercion factories captain patrol quiet =
       (None,
        \<lparr>console = [''[Captain] Handling request from sergeant''],
         appended =
           [(''conceptualize-bus'',
             [(''data'', envelope_json
                 \<lparr>message_id = 7, ts = noon, sender = ''captain'',
                  recipient = RStr ''sergeant'', priority = 2, kind = ''response'',
                  content = [(''status'', PStr ''ack''),
                             (''echo'', PDict [(''task'', PStr ''patrol'')])]\<rparr>)])]\<rparr>)"
  using captain_acknowledges [OF valid_patrol, of no_coercion factories captain quiet] valid_patrol
  by (simp add: patrol_def quiet_def captain_def RedisBus_init_def factories_def)

text \<open>
  C3. The recipient filter matches an envelope exactly when its recipient is the agent's
  identifier, or the string \<open>broadcast\<close>, or a list that contains the agent's
  identifier; an envelope that does not match is dropped: the receive loop goes on to
  the next event with no task created, no handler called and nothing printed.
\<close>

theorem recipient_filter:
  "(should_handle self e \<longleftrightarrow>
      recipient e = RStr (agent_id self) \<or> recipient e = RStr ''broadcast''
      \<or> (\<exists>xs. recipient e = RList xs \<and> agent_id self \<in> set xs))
   \<and> (\<not> should_handle self e \<longrightarrow>
        receive L self handle (Yielded e # evs) s = receive L self handle evs s)"
  by (simp add: should_handle_iff [symmetric])

text \<open>The spec's lists: one that names the captain and one that does not.\<close>

theorem recipient_filter_witness:
  "should_handle captain (patrol\<lparr>recipient := RList [''sergeant'', ''captain'']\<rparr>)
   \<and> \<not> should_handle captain (patrol\<lparr>recipient := RList [''sergeant'', ''detective'']\<rparr>)
   \<and> receive no_coercion captain (captain_handle no_coercion factories captain)
        [Yielded (patrol\<lparr>recipient := RList [''sergeant'', ''detective'']\<rparr>)]
        \<lparr>tasks = [], effects = quiet\<rparr>
      = (None, \<lparr>tasks = [], effects = quiet\<rparr>)"
proof -
  let ?a = "patrol\<lparr>recipient := RList [''sergeant'', ''captain'']\<rparr>"
  let ?b = "patrol\<lparr>recipient := RList [''sergeant'', ''detective'']\<rparr>"
  have a: "should_handle captain ?a"
    using recipient_filter [of captain ?a] by (simp add: captain_def)
  have b: "\<not> should_handle captain ?b"
    using recipient_filter [of captain ?b] by (simp add: captain_def)
  show ?thesis
    using a b recipient_filter [of captain ?b no_coercion
        "captain_handle no_coercion factories captain" "[]" "\<lparr>tasks = [], effects = quiet\<rparr>"]
    by simp
qed

text \<open>
  C4. Constructing an envelope with \<open>priority = 0\<close>, \<open>priority = 6\<close>, a \<open>kind\<close> that is
  not one of the four tags, or without \<open>sender\<close> or without \<open>recipient\<close> raises
  \<open>ValidationError\<close>, whatever the other keywords are. When the construction succeeds,
  an omitted \<open>priority\<close> is 3, an omitted \<open>content\<close> is the empty dict, an omitted
  \<open>message_id\<close> is the UUID the factory made, whose text has the 36 characters of the
  canonical form and reads back as that UUID, and an omitted \<open>ts\<close> is the datetime the
  clock gave, whose text is not empty and reads back as that datetime.
\<close>

theorem construct_validation:
  "((map_of kw ''priority'' = Some (PInt 0) \<or> map_of kw ''priority'' = Some (PInt 6)
      \<or> (\<exists>v. map_of kw ''kind'' = Some v \<and> v \<notin> PStr ` set kinds)
      \<or> map_of kw ''sender'' = None \<or> map_of kw ''recipient'' = None)
     \<longrightarrow> (\<exists>locs. validate_model L d kw = Inl (ValidationError locs)))
   \<and> (validate_model L d kw = Inr e \<longrightarrow>
        (map_of kw ''priority'' = None \<longrightarrow> priority e = 3)
      \<and> (map_of kw ''content'' = None \<longrightarrow> content e = [])
      \<and> (map_of kw ''message_id'' = None \<longrightarrow>
            message_id e = uuid4 d \<and> length (uuid_str (message_id e)) = 36
            \<and> uuid_parse (uuid_str (message_id e)) = Some (message_id e))
      \<and> (map_of kw ''ts'' = None \<longrightarrow>
            ts e = utcnow d \<and> isoformat (ts e) \<noteq> []
            \<and> (valid_datetime (utcnow d) \<longrightarrow> iso_parse (isoformat (ts e)) = Some (ts e))))"
proof (intro conjI impI)
  assume bad: "map_of kw ''priority'' = Some (PInt 0) \<or> map_of kw ''priority'' = Some (PInt 6)
      \<or> (\<exists>v. map_of kw ''kind'' = Some v \<and> v \<notin> PStr ` set kinds)
      \<or> map_of kw ''sender'' = None \<or> map_of kw ''recipient'' = None"
  have p: "field kw ''priority'' (Some 3) (priority_validator L) = None"
    if "map_of kw ''priority'' = Some (PInt i)" and "i < 1 \<or> 5 < i" for i
    using that(1) priority_out_of_range [OF that(2), of L] by (simp add: field_def)
  have p0: "field kw ''priority'' (Some 3) (priority_validator L) = None"
    if "map_of kw ''priority'' = Some (PInt 0)"
    using p [of 0] that by simp
  have p6: "field kw ''priority'' (Some 3) (priority_validator L) = None"
    if "map_of kw ''priority'' = Some (PInt 6)"
    using p [of 6] that by simp
  have k: "field kw ''kind'' None kind_validator = None"
    if "map_of kw ''kind'' = Some v" and "v \<notin> PStr ` set kinds" for v
    using that(1) kind_refused [OF that(2)] by (simp add: field_def)
  have s: "field kw ''sender'' None (exact_or_coerce L ''sender'' str_exact) = None"
    if "map_of kw ''sender'' = None"
    using that by (simp add: field_def)
  have r: "field kw ''recipient'' None (exact_or_coerce L ''recipient'' rcpt_exact) = None"
    if "map_of kw ''recipient'' = None"
    using that by (simp add: field_def)
  from bad have "field kw ''sender'' None (exact_or_coerce L ''sender'' str_exact) = None
    \<or> field kw ''recipient'' None (exact_or_coerce L ''recipient'' rcpt_exact) = None
    \<or> field kw ''priority'' (Some 3) (priority_validator L) = None
    \<or> field kw ''kind'' None kind_validator = None"
  proof (elim disjE exE conjE)
    assume "map_of kw ''priority'' = Some (PInt 0)"
    then show ?thesis by (simp add: p0)
  next
    assume "map_of kw ''priority'' = Some (PInt 6)"
    then show ?thesis by (simp add: p6)
  next
    fix v assume "map_of kw ''kind'' = Some v" and "v \<notin> PStr ` set kinds"
    then show ?thesis by (simp add: k)
  next
    assume "map_of kw ''sender'' = None"
    then show ?thesis by (simp add: s)
  next
    assume "map_of kw ''recipient'' = None"
    then show ?thesis by (simp add: r)
  qed
  then show "\<exists>locs. validate_model L d kw = Inl (ValidationError locs)"
    by (rule validate_model_fails)
next
  assume ok: "validate_model L d kw = Inr e" and "map_of kw ''priority'' = None"
  then show "priority e = 3"
    using validate_model_Inr(5) [OF ok] by (simp add: field_def)
next
  assume ok: "validate_model L d kw = Inr e" and "map_of kw ''content'' = None"
  then show "content e = []"
    using validate_model_Inr(7) [OF ok] by (simp add: field_def)
next
  assume ok: "validate_model L d kw = Inr e" and "map_of kw ''message_id'' = None"
  then show "message_id e = uuid4 d"
    using validate_model_Inr(1) [OF ok] by (simp add: field_def)
next
  show "length (uuid_str (message_id e)) = 36" by (rule length_uuid_str)
next
  show "uuid_parse (uuid_str (message_id e)) = Some (message_id e)" by (rule uuid_parse_str)
next
  assume ok: "validate_model L d kw = Inr e" and "map_of kw ''ts'' = None"
  then show "ts e = utcnow d"
    using validate_model_Inr(2) [OF ok] by (simp add: field_def)
next
  show "isoformat (ts e) \<noteq> []" by (rule isoformat_not_empty)
next
  assume ok: "validate_model L d kw = Inr e" and "map_of kw ''ts'' = None"
    and v: "valid_datetime (utcnow d)"
  then have "ts e = utcnow d"
    using validate_model_Inr(2) [OF ok] by (simp add: field_def)
  then show "iso_parse (isoformat (ts e)) = Some (ts e)"
    using v by (simp add: iso_parse_isoformat)
qed

text \<open>
  Each failing construction of C4 at a concrete call, and the defaults of a call that
  gives only \<open>sender\<close>, \<open>recipient\<close> and \<open>kind\<close>.
\<close>

theorem construct_validation_witness:
  "(\<exists>locs. validate_model no_coercion factories ((''priority'', PInt 0) # minimal_kw)
            = Inl (ValidationError locs))
   \<and> (\<exists>locs. validate_model no_coercion factories ((''priority'', PInt 6) # minimal_kw)
            = Inl (ValidationError locs))
   \<and> (\<exists>locs. validate_model no_coercion factories
              [(''sender'', PStr ''sergeant''), (''recipient'', PStr ''captain''),
               (''kind'', PStr ''unknown'')] = Inl (ValidationError locs))
   \<and> (\<exists>locs. validate_model no_coercion factories
              [(''recipient'', PStr ''captain''), (''kind'', PStr ''request'')]
            = Inl (ValidationError locs))
   \<and> (\<exists>locs. validate_model no_coercion factories
              [(''sender'', PStr ''sergeant''), (''kind'', PStr ''request'')]
            = Inl (ValidationError locs))
   \<and> (\<exists>e. validate_model no_coercion factories minimal_kw = Inr e
          \<and> priority e = 3 \<and> content e = [] \<and> message_id e = 7
          \<and> uuid_parse (uuid_str (message_id e)) = Some (message_id e)
          \<and> ts e = noon \<and> iso_parse (isoformat (ts e)) = Some (ts e))"
proof -
  let ?e = "\<lparr>message_id = 7, ts = noon, sender = ''sergeant'', recipient = RStr ''captain'',
          priority = 3, kind = ''request'', content = []\<rparr>"
  have a: "\<exists>locs. validate_model no_coercion factories ((''priority'', PInt 0) # minimal_kw)
            = Inl (ValidationError locs)"
    using construct_validation [of "(''priority'', PInt 0) # minimal_kw" no_coercion factories]
    by simp
  have b: "\<exists>locs. validate_model no_coercion factories ((''priority'', PInt 6) # minimal_kw)
            = Inl (ValidationError locs)"
    using construct_validation [of "(''priority'', PInt 6) # minimal_kw" no_coercion factories]
    by simp
  have c: "\<exists>locs. validate_model no_coercion factories
              [(''sender'', PStr ''sergeant''), (''recipient'', PStr ''captain''),
               (''kind'', PStr ''unknown'')] = Inl (ValidationError locs)"
    using construct_validation [of "[(''sender'', PStr ''sergeant''),
        (''recipient'', PStr ''captain''), (''kind'', PStr ''unknown'')]" no_coercion factories]
    by (simp add: kinds_def image_iff)
  have d: "\<exists>locs. validate_model no_coercion factories
              [(''recipient'', PStr ''captain''), (''kind'', PStr ''request'')]
            = Inl (ValidationError locs)"
    using construct_validation [of "[(''recipient'', PStr ''captain''),
        (''kind'', PStr ''request'')]" no_coercion factories]
    by simp
  have e: "\<exists>locs. validate_model no_coercion factories
              [(''sender'', PStr ''sergeant''), (''kind'', PStr ''request'')]
            = Inl (ValidationError locs)"
    using construct_validation [of "[(''sender'', PStr ''sergeant''),
        (''kind'', PStr ''request'')]" no_coercion factories]
    by simp
  have f: "priority ?e = 3 \<and> content ?e = [] \<and> message_id ?e = 7
          \<and> uuid_parse (uuid_str (message_id ?e)) = Some (message_id ?e)
          \<and> ts ?e = noon \<and> iso_parse (isoformat (ts ?e)) = Some (ts ?e)"
    using construct_validation [of minimal_kw no_coercion factories ?e] construct_minimal
      valid_noon
    by (simp add: minimal_kw_def factories_def)
  show ?thesis
    using a b c d e f construct_minimal by blast
qed

text \<open>
  C5 (as amended). If the handler raises a failure that is an instance of \<open>Exception\<close>,
  \<open>_safe_handle\<close> catches it, prints one line with the agent's identifier and the
  error, and returns normally. With a handler whose failures are all of that kind the
  receive loop never stops: it creates a task for every yielded envelope that matches
  the filter, whatever became of the earlier ones.
\<close>

theorem handler_failure_isolated:
  "(handle e w = (Some x, w1) \<longrightarrow> is_Exception x \<longrightarrow>
      safe_handle L self handle e w =
        (None, print (''['' @ agent_id self @ ''] Error while handling message: ''
                      @ exc_str L x) w1))
   \<and> ((\<forall>e w x w1. handle e w = (Some x, w1) \<longrightarrow> is_Exception x) \<longrightarrow>
        (\<exists>s1. receive L self handle evs s = (None, s1)
           \<and> tasks s1 = tasks s @ filter (should_handle self) (yielded evs)))"
  using safe_handle_caught [of handle e w x w1 L self]
    receive_dispatches_all [of handle L self evs s]
  by blast

text \<open>
  A handler that always raises: its failure is caught and printed, and the second
  patrol envelope is dispatched after the first one failed.
\<close>

theorem handler_failure_isolated_witness:
  "failing patrol quiet = (Some (Raised True ''boom''), quiet)
   \<and> is_Exception (Raised True ''boom'')
   \<and> safe_handle no_coercion captain failing patrol quiet =
       (None, \<lparr>console = [''[captain] Error while handling message: boom''], appended = []\<rparr>)
   \<and> (\<exists>s1. receive no_coercion captain failing [Yielded patrol, Yielded patrol]
              \<lparr>tasks = [], effects = quiet\<rparr> = (None, s1)
          \<and> tasks s1 = [patrol, patrol])"
proof -
  have f: "failing patrol quiet = (Some (Raised True ''boom''), quiet)"
    by (simp add: failing_def)
  have x: "is_Exception (Raised True ''boom'')"
    by (simp add: is_Exception_def)
  have a: "\<forall>e w x w1. failing e w = (Some x, w1) \<longrightarrow> is_Exception x"
    by (simp add: failing_def is_Exception_def)
  have m: "should_handle captain patrol"
    by (simp add: should_handle_iff patrol_def captain_def)
  note t = handler_failure_isolated [of failing patrol quiet "Raised True ''boom''" quiet
      no_coercion captain "[Yielded patrol, Yielded patrol]" "\<lparr>tasks = [], effects = quiet\<rparr>"]
  have c: "safe_handle no_coercion captain failing patrol quiet =
       (None, \<lparr>console = [''[captain] Error while handling message: boom''], appended = []\<rparr>)"
    using t f x by (simp add: print_def quiet_def captain_def exc_str_def)
  have r: "\<exists>s1. receive no_coercion captain failing [Yielded patrol, Yielded patrol]
              \<lparr>tasks = [], effects = quiet\<rparr> = (None, s1)
          \<and> tasks s1 = [patrol, patrol]"
    using t a m by simp
  show ?thesis using f x c r by blast
qed

text \<open>
  C5 as stated fails: \<open>except Exception\<close> does not take every failure. A handler that
  raises \<open>SystemExit\<close> (which is not an \<open>Exception\<close>) is not caught at the dispatch
  boundary, and nothing is printed.
\<close>

theorem handler_failure_counterexample:
  "exiting patrol quiet = (Some (Raised False ''exit''), quiet)
   \<and> safe_handle no_coercion captain exiting patrol quiet = (Some (Raised False ''exit''), quiet)
   \<and> console quiet = []"
  by (simp add: exiting_def safe_handle_def is_Exception_def quiet_def)

text \<open>
  C6. Take a log of entries with distinct identifiers and a subscription to its new
  entries that reads them all, in reads of any sizes. For an entry whose \<open>data\<close> field
  is there but does not parse into a valid envelope, the loop body prints the failure
  and yields nothing; the subscription does, before that line, what it does for the
  entries before, and after it what it does for the entries after, as on a fresh
  subscription; and every later entry whose payload parses is yielded.
\<close>

theorem malformed_entry_skipped:
  assumes "distinct (map fst (older B @ newer B))"
    and "''$'' \<notin> fst ` set (older B @ newer B)"
    and "newer B = before @ m # after"
    and "length (newer B) \<le> sum_list ks"
    and "map_of (snd m) ''data'' = Some raw"
    and "parse_raw L (fac (fst m)) raw = Inl x"
  shows "on_message L fac m st =
       st\<lparr>last_id := fst m,
          events := events st
            @ [Printed (''[RedisBus] Failed to parse envelope: '' @ exc_str L x)]\<rparr>
     \<and> events (subscribe L fac b B ks subscribe_init) =
         events (on_messages L fac before subscribe_init)
         @ Printed (''[RedisBus] Failed to parse envelope: '' @ exc_str L x)
         # events (on_messages L fac after subscribe_init)
     \<and> (\<forall>m2 raw2 e2. m2 \<in> set after \<longrightarrow> map_of (snd m2) ''data'' = Some raw2
           \<longrightarrow> parse_raw L (fac (fst m2)) raw2 = Inr e2
           \<longrightarrow> Yielded e2 \<in> set (events (subscribe L fac b B ks subscribe_init)))"
proof (intro conjI allI impI)
  show "on_message L fac m st =
       st\<lparr>last_id := fst m,
          events := events st
            @ [Printed (''[RedisBus] Failed to parse envelope: '' @ exc_str L x)]\<rparr>"
    using on_message_failed [where fac = fac, OF assms(5,6)] .
next
  have run: "subscribe L fac b B ks subscribe_init = on_messages L fac (newer B) subscribe_init"
    using assms(1,2,4) by (rule subscribe_new_entries)
  have one: "events (on_message L fac m subscribe_init)
      = [Printed (''[RedisBus] Failed to parse envelope: '' @ exc_str L x)]"
    using on_message_failed [where fac = fac and st = subscribe_init, OF assms(5,6)]
    by (simp add: subscribe_init_def)
  show "events (subscribe L fac b B ks subscribe_init) =
         events (on_messages L fac before subscribe_init)
         @ Printed (''[RedisBus] Failed to parse envelope: '' @ exc_str L x)
         # events (on_messages L fac after subscribe_init)"
    unfolding run assms(3) events_split one by simp
  fix m2 raw2 e2
  assume "m2 \<in> set after" and "map_of (snd m2) ''data'' = Some raw2"
    and "parse_raw L (fac (fst m2)) raw2 = Inr e2"
  then show "Yielded e2 \<in> set (events (subscribe L fac b B ks subscribe_init))"
    unfolding run assms(3)
    using good_entry_yielded [of m2 "before @ m # after" raw2 L fac e2 subscribe_init] by simp
qed

text \<open>
  The example log read in two reads of one and of five entries: the patrol envelope,
  the line for the entry that is not JSON, and the patrol envelope again.
\<close>

theorem malformed_entry_skipped_witness:
  "distinct (map fst (older stream_log @ newer stream_log))
   \<and> ''$'' \<notin> fst ` set (older stream_log @ newer stream_log)
   \<and> newer stream_log
       = [good_entry ''2-0''] @ garbled_entry ''3-0'' # [bare_entry ''4-0'', good_entry ''5-0'']
   \<and> length (newer stream_log) \<le> sum_list [1, 5]
   \<and> map_of (snd (garbled_entry ''3-0'')) ''data'' = Some (NotJson ''{oops'')
   \<and> parse_raw no_coercion factories (NotJson ''{oops'') = Inl (ValidationError [''__root__''])
   \<and> events (subscribe no_coercion (\<lambda>i. factories) RedisBus_init stream_log [1, 5] subscribe_init)
       = [Yielded patrol, Printed ''[RedisBus] Failed to parse envelope: validation error'',
          Yielded patrol]"
proof -
  have n: "newer stream_log
       = [good_entry ''2-0''] @ garbled_entry ''3-0'' # [bare_entry ''4-0'', good_entry ''5-0'']"
    by (simp add: stream_log_def)
  have l: "length (newer stream_log) \<le> sum_list [1, 5]"
    by (simp add: stream_log_def)
  have g: "map_of (snd (garbled_entry ''3-0'')) ''data'' = Some (NotJson ''{oops'')"
    by (simp add: garbled_entry_def)
  have p: "parse_raw no_coercion ((\<lambda>i. factories) (fst (garbled_entry ''3-0''))) (NotJson ''{oops'')
      = Inl (ValidationError [''__root__''])"
    by (simp add: parse_raw_def)
  have e: "events (subscribe no_coercion (\<lambda>i. factories) RedisBus_init stream_log [1, 5] subscribe_init)
       = [Yielded patrol, Printed ''[RedisBus] Failed to parse envelope: validation error'',
          Yielded patrol]"
    using malformed_entry_skipped [where fac = "\<lambda>i. factories" and st = subscribe_init
        and b = RedisBus_init, OF stream_log_ids n l g p]
    by (simp add: on_message_good on_message_bare subscribe_init_def exc_str_def no_coercion_def)
  show ?thesis
    using stream_log_ids n l g p e by simp
qed

text \<open>
  C7. After the entries of a reply are processed, \<open>last_id\<close> is the identifier of the
  last entry of the reply, whether that entry was yielded, skipped or refused (and is
  unchanged by an empty reply). Hence, over a log of entries with distinct identifiers,
  the successive reads of a subscription, of any sizes, process together the first
  entries after the start position, each once and in log order, and leave exactly the
  rest of the log to be read: no entry is read twice and none is passed over.
\<close>

theorem position_tracks_last_entry:
  "last_id (on_streams L fac r st)
     = (if concat (map snd r) = [] then last_id st else fst (last (concat (map snd r))))
   \<and> (distinct (map fst (older B @ newer B)) \<longrightarrow> ''$'' \<notin> fst ` set (older B @ newer B) \<longrightarrow>
        subscribe L fac b B ks st
          = on_messages L fac (take (sum_list ks) (pending B (last_id st))) st
        \<and> pending B (last_id (subscribe L fac b B ks st))
          = drop (sum_list ks) (pending B (last_id st)))"
proof (intro conjI impI)
  show "last_id (on_streams L fac r st)
     = (if concat (map snd r) = [] then last_id st else fst (last (concat (map snd r))))"
    unfolding on_streams_concat by (rule last_id_on_messages)
next
  assume d: "distinct (map fst (older B @ newer B))"
    and s: "''$'' \<notin> fst ` set (older B @ newer B)"
  show run: "subscribe L fac b B ks st
          = on_messages L fac (take (sum_list ks) (pending B (last_id st))) st"
    using d s by (rule subscribe_one_pass)
  show "pending B (last_id (subscribe L fac b B ks st))
          = drop (sum_list ks) (pending B (last_id st))"
    unfolding run using d s by (rule pending_after_pass)
qed

text \<open>
  The example log read in two reads of one and of two entries: the position ends at
  the third new entry, the one without payload, and the fourth is what remains.
\<close>

theorem position_tracks_last_entry_witness:
  "distinct (map fst (older stream_log @ newer stream_log))
   \<and> ''$'' \<notin> fst ` set (older stream_log @ newer stream_log)
   \<and> subscribe no_coercion (\<lambda>i. factories) RedisBus_init stream_log [1, 2] subscribe_init
       = \<lparr>last_id = ''4-0'',
          events = [Yielded patrol,
                    Printed ''[RedisBus] Failed to parse envelope: validation error'']\<rparr>
   \<and> pending stream_log ''4-0'' = [good_entry ''5-0'']"
proof -
  note t = position_tracks_last_entry [of no_coercion "\<lambda>i. factories" "[]" subscribe_init
      stream_log RedisBus_init "[1, 2]"]
  have p: "pending stream_log (last_id subscribe_init) = newer stream_log"
    by (simp add: pending_def subscribe_init_def)
  have run: "subscribe no_coercion (\<lambda>i. factories) RedisBus_init stream_log [1, 2] subscribe_init
       = \<lparr>last_id = ''4-0'',
          events = [Yielded patrol,
                    Printed ''[RedisBus] Failed to parse envelope: validation error'']\<rparr>"
    using t stream_log_ids p
    by (simp add: stream_log_def on_message_good on_message_garbled on_message_bare
        subscribe_init_def)
  have "pending stream_log
          (last_id (subscribe no_coercion (\<lambda>i. factories) RedisBus_init stream_log [1, 2]
             subscribe_init))
        = drop (sum_list [1, 2]) (pending stream_log (last_id subscribe_init))"
    using t stream_log_ids by blast
  then have rest: "pending stream_log ''4-0'' = [good_entry ''5-0'']"
    unfolding run p by (simp add: stream_log_def)
  show ?thesis using stream_log_ids run rest by simp
qed

text \<open>
  C8. For an entry without a \<open>data\<close> field the loop body only moves \<open>last_id\<close>: it
  yields nothing and prints nothing, and the entries around it are processed as if it
  were not there.
\<close>

theorem missing_payload_skipped:
  assumes "map_of (snd m) ''data'' = None"
  shows "on_message L fac m st = st\<lparr>last_id := fst m\<rparr>
     \<and> events (on_messages L fac (before @ m # after) st)
       = events (on_messages L fac (before @ after) st)"
proof
  show "on_message L fac m st = st\<lparr>last_id := fst m\<rparr>"
    using assms by (rule on_message_absent)
  have "events (on_message L fac m subscribe_init) = []"
    using on_message_absent [OF assms, of L fac subscribe_init] by (simp add: subscribe_init_def)
  then have "events (on_messages L fac (before @ m # after) st)
      = events (on_messages L fac before st) @ events (on_messages L fac after subscribe_init)"
    by (simp add: events_split)
  also have "\<dots> = events (on_messages L fac (before @ after) st)"
    using events_on_messages [of L fac after "on_messages L fac before st"]
    by (simp add: on_messages_append)
  finally show "events (on_messages L fac (before @ m # after) st)
       = events (on_messages L fac (before @ after) st)" .
qed

text \<open>An entry with another field only, between two good ones.\<close>

theorem missing_payload_skipped_witness:
  "map_of (snd (bare_entry ''4-0'')) ''data'' = None
   \<and> on_message no_coercion (\<lambda>i. factories) (bare_entry ''4-0'') subscribe_init
       = \<lparr>last_id = ''4-0'', events = []\<rparr>
   \<and> events (on_messages no_coercion (\<lambda>i. factories)
               ([good_entry ''2-0''] @ bare_entry ''4-0'' # [good_entry ''5-0'']) subscribe_init)
       = [Yielded patrol, Yielded patrol]"
proof -
  have a: "map_of (snd (bare_entry ''4-0'')) ''data'' = None"
    by (simp add: bare_entry_def)
  show ?thesis
    using missing_payload_skipped [OF a, of no_coercion "\<lambda>i. factories" subscribe_init
        "[good_entry ''2-0'']" "[good_entry ''5-0'']"] a
    by (simp add: on_message_good subscribe_init_def bare_entry_def)
qed




text \<open>
  C10. A recipient that is the empty list passes validation (it is never among the
  fields a failed construction reports, and a construction that succeeds stores the
  empty list), and no agent's recipient filter matches the envelope.
\<close>

theorem empty_recipient_list:
  "map_of kw ''recipient'' = Some (PList []) \<Longrightarrow>
     (\<forall>locs. validate_model L d kw = Inl (ValidationError locs) \<longrightarrow> ''recipient'' \<notin> set locs)
     \<and> (\<forall>e. validate_model L d kw = Inr e \<longrightarrow>
            recipient e = RList [] \<and> (\<forall>self. \<not> should_handle self e))"
proof (intro conjI allI impI)
  assume kw: "map_of kw ''recipient'' = Some (PList [])"
  note f = field_empty_list [OF kw, of L]
  { fix locs assume "validate_model L d kw = Inl (ValidationError locs)"
    then show "''recipient'' \<notin> set locs" by (rule recipient_loc) (simp add: f) }
  { fix e assume ok: "validate_model L d kw = Inr e"
    then show r: "recipient e = RList []" using validate_model_Inr(4) [of L d kw e] f by simp
    fix self show "\<not> should_handle self e" by (simp add: should_handle_iff r) }
qed

text \<open>An envelope addressed to the empty list is constructed, and the captain drops it.\<close>

theorem empty_recipient_list_witness:
  "map_of nobody_kw ''recipient'' = Some (PList [])
   \<and> (\<exists>e. validate_model no_coercion factories nobody_kw = Inr e \<and> recipient e = RList []
          \<and> \<not> should_handle captain e)"
proof -
  have kw: "map_of nobody_kw ''recipient'' = Some (PList [])"
    by (simp add: nobody_kw_def)
  show ?thesis
    using empty_recipient_list [OF kw, of no_coercion factories] construct_nobody kw by simp
qed

end
